theory Spec2Isabelle
  imports Complex_Main
begin

section \<open>Data model of the game server (main.go)\<close>

text \<open>
  The server keeps one global \<open>GameState\<close>: a map from player id to player and a map from
  projectile id to projectile. Three pieces of code touch it: the read loop of
  \<open>handleConn\<close> (one client message at a time), the body of \<open>broadcastState\<close> (count the
  living players, send the snapshot, reset the round) and the body of \<open>updateProjectiles\<close>
  (expire, advance and collide every projectile).

  Modelling choices.
  \<^item> A \<open>float64\<close> is the real number it holds, and the arithmetic on coordinates (lines
    203, 204 and 209) rounds every result to \<open>float64\<close> with \<open>round64\<close> below. Overflow
    to an infinity is outside the model, which agrees with \<open>float64\<close> as long as every
    result is of magnitude below \<open>2^1024\<close>; a decoded coordinate is always finite.
  \<^item> A \<open>time.Time\<close> is an integer count of nanoseconds; \<open>a.After(b)\<close> is \<open>b < a\<close>.
  \<^item> The two Go maps are partial functions. Go ranges over a map in an unspecified order,
    so each loop over a map takes the order of the visit as a list of keys; a key that is
    not (or no longer) in the map is skipped, as Go's \<open>range\<close> does with a deleted entry.
  \<^item> Each map entry points to a \<open>Player\<close> object of its own, so the map is modelled as
    holding the values. The connection handle \<open>Conn\<close> and the mutex are left out; every
    function below is one critical section, run atomically.
  \<^item> \<open>uuid.New()\<close> and \<open>time.Now()\<close> are inputs of the functions that call them.

  The source file holds an older copy of the program after its line 234 (no \<open>Dead\<close>
  field, no collisions); the model follows the first copy, lines 1 to 233.
\<close>

type_synonym time = int

record Player =
  ID :: string
  X :: real
  Y :: real
  Dead :: bool

record Projectile =
  ID :: string
  Owner :: string
  X :: real
  Y :: real
  DX :: real
  DY :: real
  Speed :: real
  Expiry :: time

record Move =
  X :: real
  Y :: real

record Shoot =
  DX :: real
  DY :: real

record ClientAction =
  Move :: Move
  Shoot :: Shoot

record GameState =
  Players :: "string \<rightharpoonup> Player"
  Projectiles :: "string \<rightharpoonup> Projectile"

text \<open>\<open>time.Second\<close>, in nanoseconds.\<close>

definition Second :: time where
  "Second = 1000000000"

section \<open>float64 arithmetic\<close>

text \<open>
  IEEE 754 binary64 with the default rounding, as Go's \<open>float64\<close> has it: a significand
  of 53 bits, exponents from -1022 to 1023, subnormal numbers with the quantum \<open>2^-1074\<close>,
  round to nearest with ties to the even significand.
\<close>

text \<open>The nearest integer, a tie going to the even one.\<close>

definition roundEven :: "real \<Rightarrow> int" where
  "roundEven x =
     (let n = \<lfloor>x\<rfloor>; d = x - of_int n
      in if d < 1 / 2 then n else if 1 / 2 < d then n + 1 else if even n then n else n + 1)"

text \<open>
  The binade of a magnitude \<open>a\<close>: the exponent \<open>e\<close> with \<open>2^e \<le> a < 2^(e+1)\<close>, kept between
  -1022 and 1023, found by stepping up from 0 when \<open>1 \<le> a\<close> and down from -1 otherwise.
\<close>

fun climb :: "nat \<Rightarrow> int \<Rightarrow> real \<Rightarrow> int" where
  "climb 0 e a = e"
| "climb (Suc n) e a = (if 2 powi (e + 1) \<le> a then climb n (e + 1) a else e)"

fun descend :: "nat \<Rightarrow> int \<Rightarrow> real \<Rightarrow> int" where
  "descend 0 e a = e"
| "descend (Suc n) e a = (if a < 2 powi e then descend n (e - 1) a else e)"

definition exponent :: "real \<Rightarrow> int" where
  "exponent x = (if 1 \<le> \<bar>x\<bar> then climb 1023 0 \<bar>x\<bar> else descend 1021 (- 1) \<bar>x\<bar>)"

text \<open>
  Rounding to \<open>float64\<close>: to the nearest multiple of the quantum \<open>2^(e-52)\<close> of the
  binade \<open>e\<close>.
\<close>

definition round64 :: "real \<Rightarrow> real" where
  "round64 x = of_int (roundEven (x / 2 powi (exponent x - 52))) * 2 powi (exponent x - 52)"

section \<open>handleConn: applying client messages\<close>

text \<open>
  Lines 108 to 127: the body of the read loop, on the session's own \<open>player\<close> object and
  the projectile map. \<open>projectileID\<close> is the value of \<open>uuid.New().String()\<close> and \<open>now\<close>
  that of \<open>time.Now()\<close>, both read only when the shoot vector is not zero.
\<close>

definition onMessage ::
  "ClientAction \<Rightarrow> string \<Rightarrow> time \<Rightarrow> Player \<Rightarrow> (string \<rightharpoonup> Projectile)
     \<Rightarrow> Player \<times> (string \<rightharpoonup> Projectile)" where
  "onMessage msg projectileID now player projs =
     (let move = Move msg;
          player1 = (if Move.X move \<noteq> 0 \<or> Move.Y move \<noteq> 0
                     then player\<lparr>Player.X := Move.X move, Player.Y := Move.Y move\<rparr>
                     else player);
          shoot = Shoot msg;
          projs1 = (if Shoot.DX shoot \<noteq> 0 \<or> Shoot.DY shoot \<noteq> 0
                    then projs(projectileID \<mapsto>
                           \<lparr>Projectile.ID = projectileID,
                            Owner = Player.ID player1,
                            Projectile.X = Player.X player1,
                            Projectile.Y = Player.Y player1,
                            Projectile.DX = Shoot.DX shoot,
                            Projectile.DY = Shoot.DY shoot,
                            Speed = 15,
                            Expiry = now + 5 * Second\<rparr>)
                    else projs)
      in (player1, projs1))"

text \<open>
  The read loop (lines 100 to 128) over the messages decoded before the first read error,
  each with the id and the time it would use.
\<close>

fun onMessages ::
  "(ClientAction \<times> string \<times> time) list \<Rightarrow> Player \<Rightarrow> (string \<rightharpoonup> Projectile)
     \<Rightarrow> Player \<times> (string \<rightharpoonup> Projectile)" where
  "onMessages [] player projs = (player, projs)"
| "onMessages ((msg, projectileID, now) # rest) player projs =
     (case onMessage msg projectileID now player projs of
        (player1, projs1) \<Rightarrow> onMessages rest player1 projs1)"

section \<open>updateProjectiles: the physics tick\<close>

text \<open>
  The tick is instrumented: beside the new state it returns the list of what it did, in
  order. \<open>Expire i\<close> is the \<open>delete\<close> of line 199, \<open>Advance i\<close> the two assignments of
  lines 203 and 204, \<open>Test i k\<close> one evaluation of the condition of line 209 for
  projectile \<open>i\<close> and the player under key \<open>k\<close>, and \<open>Hit i k\<close> the \<open>delete\<close> of line 210
  together with the assignment \<open>player.Dead = true\<close> of line 211.
\<close>

datatype event =
    Expire string
  | Advance string
  | Test string string
  | Hit string string

text \<open>
  The condition of line 209: the two differences and the two sums are \<open>float64\<close>
  operations.
\<close>

definition overlap :: "Player \<Rightarrow> Projectile \<Rightarrow> bool" where
  "overlap player proj \<longleftrightarrow>
     round64 (Player.X player - 40) < Projectile.X proj \<and>
     Projectile.X proj < round64 (Player.X player + 40) \<and>
     round64 (Player.Y player - 40) < Projectile.Y proj \<and>
     Projectile.Y proj < round64 (Player.Y player + 40)"

text \<open>
  Lines 203 and 204. The product and the sum are rounded one after the other, as on
  amd64; where the compiler fuses the two into one operation the sum is rounded once.
  The results stated below on concrete inputs are exact either way.
\<close>

definition advance :: "Projectile \<Rightarrow> Projectile" where
  "advance proj =
     proj\<lparr>Projectile.X :=
            round64 (Projectile.X proj + round64 (Projectile.DX proj * Speed proj)),
          Projectile.Y :=
            round64 (Projectile.Y proj + round64 (Projectile.DY proj * Speed proj))\<rparr>"

text \<open>
  Lines 205 to 214: the loop over the players for the projectile \<open>proj\<close> stored under
  \<open>i\<close>; \<open>continue\<close> for the owner, \<open>break\<close> at the first overlap.
\<close>

fun playersLoop ::
  "string \<Rightarrow> Projectile \<Rightarrow> string list \<Rightarrow> GameState \<Rightarrow> GameState \<times> event list" where
  "playersLoop i proj [] st = (st, [])"
| "playersLoop i proj (k # ks) st =
     (case Players st k of
        None \<Rightarrow> playersLoop i proj ks st
      | Some player \<Rightarrow>
          if Player.ID player = Owner proj then playersLoop i proj ks st
          else if overlap player proj then
            (st\<lparr>Projectiles := (Projectiles st)(i := None),
                Players := (Players st)(k \<mapsto> player\<lparr>Dead := True\<rparr>)\<rparr>,
             [Test i k, Hit i k])
          else (case playersLoop i proj ks st of
                  (st1, evs) \<Rightarrow> (st1, Test i k # evs)))"

text \<open>Lines 198 to 214: the body of the loop over the projectiles, for the key \<open>i\<close>.\<close>

definition stepProjectile ::
  "time \<Rightarrow> string list \<Rightarrow> string \<Rightarrow> GameState \<Rightarrow> GameState \<times> event list" where
  "stepProjectile now ks i st =
     (case Projectiles st i of
        None \<Rightarrow> (st, [])
      | Some proj \<Rightarrow>
          if Expiry proj < now
          then (st\<lparr>Projectiles := (Projectiles st)(i := None)\<rparr>, [Expire i])
          else (case playersLoop i (advance proj) ks
                       (st\<lparr>Projectiles := (Projectiles st)(i \<mapsto> advance proj)\<rparr>) of
                  (st1, evs) \<Rightarrow> (st1, Advance i # evs)))"

text \<open>
  Lines 197 to 215: the loop over the projectiles, visited in the order \<open>ids\<close>;
  \<open>order i\<close> is the order in which the players are visited for projectile \<open>i\<close>.
\<close>

fun projectilesLoop ::
  "time \<Rightarrow> (string \<Rightarrow> string list) \<Rightarrow> string list \<Rightarrow> GameState
     \<Rightarrow> GameState \<times> event list" where
  "projectilesLoop now order [] st = (st, [])"
| "projectilesLoop now order (i # ids) st =
     (case stepProjectile now (order i) i st of
        (st1, evs1) \<Rightarrow>
          (case projectilesLoop now order ids st1 of
             (st2, evs2) \<Rightarrow> (st2, evs1 @ evs2)))"

text \<open>Lines 194 to 217: one iteration of \<open>updateProjectiles\<close>, at the time \<open>now\<close>.\<close>

definition updateProjectiles ::
  "time \<Rightarrow> (string \<Rightarrow> string list) \<Rightarrow> string list \<Rightarrow> GameState
     \<Rightarrow> GameState \<times> event list" where
  "updateProjectiles now order ids st = projectilesLoop now order ids st"

section \<open>broadcastState: the broadcast tick and the round reset\<close>

text \<open>Lines 159 to 164: the count of the players that are not dead.\<close>

fun countLoop :: "string list \<Rightarrow> (string \<rightharpoonup> Player) \<Rightarrow> nat \<Rightarrow> nat" where
  "countLoop [] players stillAlive = stillAlive"
| "countLoop (k # ks) players stillAlive =
     (case players k of
        None \<Rightarrow> countLoop ks players stillAlive
      | Some player \<Rightarrow>
          if \<not> Dead player then countLoop ks players (stillAlive + 1)
          else countLoop ks players stillAlive)"

text \<open>
  Lines 169 to 175: the snapshot is written to every player; \<open>fails k\<close> says that the
  write to the connection of the player under key \<open>k\<close> returns an error, and then the
  entry under that player's id is deleted.
\<close>

fun sendLoop :: "(string \<Rightarrow> bool) \<Rightarrow> string list \<Rightarrow> GameState \<Rightarrow> GameState" where
  "sendLoop fails [] st = st"
| "sendLoop fails (k # ks) st =
     (case Players st k of
        None \<Rightarrow> sendLoop fails ks st
      | Some player \<Rightarrow>
          if fails k
          then sendLoop fails ks (st\<lparr>Players := (Players st)(Player.ID player := None)\<rparr>)
          else sendLoop fails ks st)"

text \<open>Lines 180 to 184: every player is made alive again, at the spawn point.\<close>

fun resetLoop :: "string list \<Rightarrow> (string \<rightharpoonup> Player) \<Rightarrow> (string \<rightharpoonup> Player)" where
  "resetLoop [] players = players"
| "resetLoop (k # ks) players =
     (case players k of
        None \<Rightarrow> resetLoop ks players
      | Some player \<Rightarrow>
          resetLoop ks
            (players(k \<mapsto> player\<lparr>Dead := False, Player.X := 50, Player.Y := 50\<rparr>)))"

text \<open>Lines 178 to 185: the round reset, as a change of the store.\<close>

definition roundReset :: "string list \<Rightarrow> GameState \<Rightarrow> GameState" where
  "roundReset ks st = st\<lparr>Players := resetLoop ks (Players st)\<rparr>"

text \<open>
  Lines 142 to 186: one iteration of \<open>broadcastState\<close>. It returns the new store and the
  snapshot that was sent. \<open>cs\<close>, \<open>ss\<close> and \<open>rs\<close> are the orders in which the counting
  loop, the sending loop and the resetting loop visit the players.
\<close>

definition broadcastState ::
  "string list \<Rightarrow> string list \<Rightarrow> string list \<Rightarrow> (string \<Rightarrow> bool) \<Rightarrow> GameState
     \<Rightarrow> GameState \<times> GameState" where
  "broadcastState cs ss rs fails st =
     (let state = st;
          stillAlive = countLoop cs (Players st) 0;
          st1 = sendLoop fails ss st
      in if stillAlive = 1 then (roundReset rs st1, state) else (st1, state))"

section \<open>Notions used to state the properties\<close>

text \<open>
  The move vectors, in the order received, of the messages whose move has a nonzero axis.
\<close>

definition effectiveMoves :: "(ClientAction \<times> string \<times> time) list \<Rightarrow> Move list" where
  "effectiveMoves msgs =
     filter (\<lambda>m. Move.X m \<noteq> 0 \<or> Move.Y m \<noteq> 0) (map (\<lambda>a. Move (fst a)) msgs)"

text \<open>The projectile an event is about.\<close>

fun projOf :: "event \<Rightarrow> string" where
  "projOf (Expire i) = i"
| "projOf (Advance i) = i"
| "projOf (Test i k) = i"
| "projOf (Hit i k) = i"

text \<open>\<open>removes i e\<close>: the event \<open>e\<close> is a \<open>delete\<close> of projectile \<open>i\<close>, by either cause.\<close>

fun removes :: "string \<Rightarrow> event \<Rightarrow> bool" where
  "removes i (Expire j) = (i = j)"
| "removes i (Hit j k) = (i = j)"
| "removes i e = False"

text \<open>\<open>hits k e\<close>: the event \<open>e\<close> marks the player under key \<open>k\<close> dead.\<close>

fun hits :: "string \<Rightarrow> event \<Rightarrow> bool" where
  "hits k (Hit i k') = (k = k')"
| "hits k e = False"

text \<open>The two assignments to a player: line 211, and lines 181 to 183.\<close>

definition markDead :: "Player \<Rightarrow> Player" where
  "markDead p = p\<lparr>Dead := True\<rparr>"

definition respawn :: "Player \<Rightarrow> Player" where
  "respawn p = p\<lparr>Dead := False, Player.X := 50, Player.Y := 50\<rparr>"

text \<open>The store with the \<open>Dead\<close> flag of the player under each key \<open>k\<close> replaced by \<open>f k\<close>.\<close>

definition setDead :: "(string \<Rightarrow> bool) \<Rightarrow> GameState \<Rightarrow> GameState" where
  "setDead f st =
     st\<lparr>Players := (\<lambda>k. map_option (\<lambda>p. p\<lparr>Dead := f k\<rparr>) (Players st k))\<rparr>"

section \<open>Concrete stores and messages\<close>

text \<open>The same order of the players for every projectile; a connection that never fails.\<close>

definition everyTime :: "string list \<Rightarrow> string \<Rightarrow> string list" where
  "everyTime ks i = ks"

definition neverFails :: "string \<Rightarrow> bool" where
  "neverFails k = False"

definition allAlive :: "string \<Rightarrow> bool" where
  "allAlive k = False"

text \<open>
  Player \<open>a\<close>, alive, and player \<open>b\<close>, dead, both at (50,50). Projectile \<open>p\<close> of \<open>a\<close>
  flies from (35,50) to (50,50) in one tick and expires at time 100; projectile \<open>q\<close> of
  \<open>a\<close> expired at time 10.
\<close>

definition alice :: Player where
  "alice = \<lparr>Player.ID = ''a'', X = 50, Y = 50, Dead = False\<rparr>"

definition bob :: Player where
  "bob = \<lparr>Player.ID = ''b'', X = 50, Y = 50, Dead = True\<rparr>"

definition shot :: Projectile where
  "shot = \<lparr>Projectile.ID = ''p'', Owner = ''a'', X = 35, Y = 50, DX = 1, DY = 0,
            Speed = 15, Expiry = 100\<rparr>"

definition stale :: Projectile where
  "stale = \<lparr>Projectile.ID = ''q'', Owner = ''a'', X = 0, Y = 0, DX = 0, DY = 1,
             Speed = 15, Expiry = 10\<rparr>"

definition arenaStore :: GameState where
  "arenaStore = \<lparr>Players = [''a'' \<mapsto> alice, ''b'' \<mapsto> bob],
                  Projectiles = [''p'' \<mapsto> shot, ''q'' \<mapsto> stale]\<rparr>"

text \<open>The projectile \<open>p\<close> alone, with no player in the store.\<close>

definition flightStore :: GameState where
  "flightStore = \<lparr>Players = Map.empty, Projectiles = [''p'' \<mapsto> shot]\<rparr>"

text \<open>One player in total, alive, away from the spawn point.\<close>

definition loner :: Player where
  "loner = \<lparr>Player.ID = ''a'', X = 70, Y = 80, Dead = False\<rparr>"

definition loneStore :: GameState where
  "loneStore = \<lparr>Players = [''a'' \<mapsto> loner], Projectiles = Map.empty\<rparr>"








text \<open>Messages: move to (3,4) and shoot along (1,0); move only; neither.\<close>

definition moveAndShoot :: ClientAction where
  "moveAndShoot = \<lparr>Move = \<lparr>Move.X = 3, Y = 4\<rparr>, Shoot = \<lparr>Shoot.DX = 1, DY = 0\<rparr>\<rparr>"

definition moveOnly :: ClientAction where
  "moveOnly = \<lparr>Move = \<lparr>Move.X = 7, Y = 0\<rparr>, Shoot = \<lparr>Shoot.DX = 0, DY = 0\<rparr>\<rparr>"

definition idle :: ClientAction where
  "idle = \<lparr>Move = \<lparr>Move.X = 0, Y = 0\<rparr>, Shoot = \<lparr>Shoot.DX = 0, DY = 0\<rparr>\<rparr>"

section \<open>Facts about float64 rounding\<close>

lemma roundEven_of_int: "roundEven (of_int n) = n"
  by (simp add: roundEven_def)


lemma roundEven_upper: "roundEven x \<le> \<lceil>x\<rceil>"
proof (cases "x = of_int \<lfloor>x\<rfloor>")
  case True
  then have "roundEven x = \<lfloor>x\<rfloor>" by (metis roundEven_of_int)
  then show ?thesis by (simp add: floor_le_ceiling)
next
  case False
  then have "\<lceil>x\<rceil> = \<lfloor>x\<rfloor> + 1"
    by (metis ceiling_altdef)
  then show ?thesis by (simp add: roundEven_def Let_def)
qed







lemma climb_lower: "2 powi e \<le> a \<Longrightarrow> 2 powi (climb n e a) \<le> a"
  by (induction n arbitrary: e) auto




lemma descend_lower: "e - int n < descend n e a \<Longrightarrow> 2 powi (descend n e a) \<le> a"
proof (induction n arbitrary: e)
  case 0
  then show ?case by simp
next
  case (Suc n)
  show ?case
  proof (cases "a < 2 powi e")
    case True
    then show ?thesis using Suc.IH [of "e - 1"] Suc.prems by simp
  next
    case False
    then show ?thesis by simp
  qed
qed



lemma exponent_lower: "- 1022 < exponent x \<Longrightarrow> 2 powi (exponent x) \<le> \<bar>x\<bar>"
  using climb_lower [of 0 "\<bar>x\<bar>" 1023] descend_lower [of "- 1" 1021 "\<bar>x\<bar>"]
  by (auto simp: exponent_def split: if_splits)



lemma pow2_le: "m \<le> n \<Longrightarrow> (2::real) powi m \<le> 2 powi n"
  by (rule power_int_increasing) simp_all




lemma pow2_pos: "0 < (2::real) powi k"
  by (simp add: power_int_def)



lemma pow2_split: "(2::real) powi (a - b) * 2 powi b = 2 powi a"
proof -
  have "(2::real) powi (a - b + b) = 2 powi (a - b) * 2 powi b"
    by (rule power_int_add) simp
  then show ?thesis by simp
qed








lemma round64_fix:
  assumes "x = of_int m * 2 powi k" and "exponent x - 52 \<le> k"
  shows "round64 x = x"
proof -
  let ?q = "(2::real) powi (exponent x - 52)"
  have q: "0 < ?q" by (rule pow2_pos)
  have nn: "0 \<le> k - (exponent x - 52)" using assms(2) by simp
  have "(2::real) powi k = 2 powi (k - (exponent x - 52)) * ?q"
    by (simp add: pow2_split)
  also have "(2::real) powi (k - (exponent x - 52)) = of_int (2 ^ nat (k - (exponent x - 52)))"
    using nn by (simp add: power_int_def)
  finally have "x = of_int (m * 2 ^ nat (k - (exponent x - 52))) * ?q"
    using assms(1) by simp
  then have d: "x / ?q = of_int (m * 2 ^ nat (k - (exponent x - 52)))"
    using q by (simp add: field_simps)
  have "round64 x = of_int (roundEven (x / ?q)) * ?q"
    by (simp add: round64_def)
  also have "\<dots> = x / ?q * ?q"
    unfolding d roundEven_of_int by simp
  also have "\<dots> = x"
    using q by simp
  finally show ?thesis .
qed

lemma round64_of_int:
  assumes "\<bar>n\<bar> < 9007199254740992"
  shows "round64 (of_int n) = of_int n"
proof -
  have "exponent (of_int n) \<le> 52"
  proof (rule ccontr)
    assume "\<not> exponent (of_int n) \<le> 52"
    then have big: "53 \<le> exponent (of_int n :: real)" by simp
    then have "2 powi (exponent (of_int n :: real)) \<le> \<bar>of_int n :: real\<bar>"
      by (intro exponent_lower) simp
    moreover have "(2::real) powi 53 \<le> 2 powi (exponent (of_int n :: real))"
      using big by (rule pow2_le)
    moreover have "\<bar>of_int n :: real\<bar> < 9007199254740992"
      using assms by (metis of_int_abs of_int_less_iff of_int_numeral)
    ultimately show False by simp
  qed
  then show ?thesis
    by (intro round64_fix [where m = n and k = 0]) simp_all
qed

lemma round64_numeral [simp]:
  "(numeral w :: int) < 9007199254740992 \<Longrightarrow> round64 (numeral w) = numeral w"
  using round64_of_int [of "numeral w"] by simp

lemma round64_neg_numeral [simp]:
  "(numeral w :: int) < 9007199254740992 \<Longrightarrow> round64 (- numeral w) = - numeral w"
  using round64_of_int [of "- numeral w"] by simp

lemma round64_0 [simp]: "round64 0 = 0"
  using round64_of_int [of 0] by simp

lemma round64_1 [simp]: "round64 1 = 1"
  using round64_of_int [of 1] by simp







section \<open>Messages\<close>

lemma onMessage_zero_move:
  "Move.X (Move msg) = 0 \<Longrightarrow> Move.Y (Move msg) = 0 \<Longrightarrow>
     fst (onMessage msg projectileID now player projs) = player"
  by (simp add: onMessage_def Let_def)

lemma onMessage_nonzero_move:
  "Move.X (Move msg) \<noteq> 0 \<or> Move.Y (Move msg) \<noteq> 0 \<Longrightarrow>
     fst (onMessage msg projectileID now player projs) =
       player\<lparr>Player.X := Move.X (Move msg), Player.Y := Move.Y (Move msg)\<rparr>"
  by (simp add: onMessage_def Let_def)

lemma effectiveMoves_Nil: "effectiveMoves [] = []"
  by (simp add: effectiveMoves_def)

lemma effectiveMoves_Cons:
  "effectiveMoves ((msg, r) # msgs) =
     (if Move.X (Move msg) \<noteq> 0 \<or> Move.Y (Move msg) \<noteq> 0
      then Move msg # effectiveMoves msgs else effectiveMoves msgs)"
  by (simp add: effectiveMoves_def)

lemma onMessages_player:
  "fst (onMessages msgs player projs) =
     (if effectiveMoves msgs = [] then player
      else player\<lparr>Player.X := Move.X (last (effectiveMoves msgs)),
                  Player.Y := Move.Y (last (effectiveMoves msgs))\<rparr>)"
proof (induction msgs arbitrary: player projs)
  case Nil
  show ?case by (simp add: effectiveMoves_Nil)
next
  case (Cons a msgs)
  obtain msg projectileID now where a: "a = (msg, projectileID, now)"
    by (cases a) auto
  obtain player1 projs1 where s: "onMessage msg projectileID now player projs = (player1, projs1)"
    by (cases "onMessage msg projectileID now player projs") auto
  have p1: "player1 = fst (onMessage msg projectileID now player projs)"
    using s by simp
  show ?case
  proof (cases "Move.X (Move msg) \<noteq> 0 \<or> Move.Y (Move msg) \<noteq> 0")
    case True
    then have "player1 = player\<lparr>Player.X := Move.X (Move msg), Player.Y := Move.Y (Move msg)\<rparr>"
      using p1 onMessage_nonzero_move by simp
    then show ?thesis
      using True Cons.IH [of player1 projs1] a s by (simp add: effectiveMoves_Cons)
  next
    case False
    then have "player1 = player"
      using p1 onMessage_zero_move by simp
    then show ?thesis
      using False Cons.IH [of player1 projs1] a s by (simp add: effectiveMoves_Cons)
  qed
qed

text \<open>
  C4. After any sequence of client messages the player's position is the move vector of
  the last message whose move had a nonzero axis (the position the player started from
  when there was none): the position is set, not accumulated. A single message whose move
  vector is zero on both axes leaves the player as it was.
\<close>

theorem position_is_last_move:
  "Player.X (fst (onMessages msgs player projs)) =
     (if effectiveMoves msgs = [] then Player.X player
      else Move.X (last (effectiveMoves msgs))) \<and>
   Player.Y (fst (onMessages msgs player projs)) =
     (if effectiveMoves msgs = [] then Player.Y player
      else Move.Y (last (effectiveMoves msgs))) \<and>
   (Move.X (Move msg) = 0 \<and> Move.Y (Move msg) = 0 \<longrightarrow>
      fst (onMessage msg projectileID now player projs) = player)"
  by (simp add: onMessages_player onMessage_zero_move)

theorem position_is_last_move_witness:
  "Player.X (fst (onMessages [(moveAndShoot, ''p'', 0), (moveOnly, ''q'', 1), (idle, ''r'', 2)]
                    alice Map.empty)) = 7 \<and>
   Player.Y (fst (onMessages [(moveAndShoot, ''p'', 0), (moveOnly, ''q'', 1), (idle, ''r'', 2)]
                    alice Map.empty)) = 0 \<and>
   fst (onMessage idle ''r'' 2 alice Map.empty) = alice"
proof -
  have m: "effectiveMoves [(moveAndShoot, ''p'', 0), (moveOnly, ''q'', 1), (idle, ''r'', 2)] =
             [Move moveAndShoot, Move moveOnly]"
    by (simp add: effectiveMoves_def moveAndShoot_def moveOnly_def idle_def)
  have z: "Move.X (Move idle) = 0 \<and> Move.Y (Move idle) = 0"
    by (simp add: idle_def)
  show ?thesis
    using position_is_last_move
            [of "[(moveAndShoot, ''p'', 0), (moveOnly, ''q'', 1), (idle, ''r'', 2)]"
                alice Map.empty idle "''r''" 2] m z
    by (simp add: moveOnly_def)
qed

text \<open>
  C5. A message whose shoot vector is zero on both axes leaves the projectile map as it
  was. A message whose shoot vector has a nonzero axis writes one entry, under the fresh
  id: a projectile owned by the sender, at the sender's position after the move of the
  same message, with the supplied direction, speed 15 and expiry five seconds after the
  time of creation; when the id is fresh, the number of projectiles grows by exactly one.
\<close>

theorem shoot_creates_projectile:
  "(Shoot.DX (Shoot msg) = 0 \<and> Shoot.DY (Shoot msg) = 0 \<longrightarrow>
      snd (onMessage msg projectileID now player projs) = projs) \<and>
   (Shoot.DX (Shoot msg) \<noteq> 0 \<or> Shoot.DY (Shoot msg) \<noteq> 0 \<longrightarrow>
      snd (onMessage msg projectileID now player projs) =
        projs(projectileID \<mapsto>
          \<lparr>Projectile.ID = projectileID,
           Owner = Player.ID player,
           Projectile.X = (if Move.X (Move msg) \<noteq> 0 \<or> Move.Y (Move msg) \<noteq> 0
                           then Move.X (Move msg) else Player.X player),
           Projectile.Y = (if Move.X (Move msg) \<noteq> 0 \<or> Move.Y (Move msg) \<noteq> 0
                           then Move.Y (Move msg) else Player.Y player),
           Projectile.DX = Shoot.DX (Shoot msg),
           Projectile.DY = Shoot.DY (Shoot msg),
           Speed = 15,
           Expiry = now + 5000000000\<rparr>) \<and>
      Projectile.X (the (snd (onMessage msg projectileID now player projs) projectileID)) =
        Player.X (fst (onMessage msg projectileID now player projs)) \<and>
      Projectile.Y (the (snd (onMessage msg projectileID now player projs) projectileID)) =
        Player.Y (fst (onMessage msg projectileID now player projs)) \<and>
      (finite (dom projs) \<and> projectileID \<notin> dom projs \<longrightarrow>
         card (dom (snd (onMessage msg projectileID now player projs))) = card (dom projs) + 1))"
  by (auto simp: onMessage_def Let_def Second_def)

theorem shoot_creates_projectile_witness:
  "snd (onMessage moveOnly ''q'' 1 alice Map.empty) = Map.empty \<and>
   snd (onMessage moveAndShoot ''p'' 0 alice Map.empty) =
     [''p'' \<mapsto> \<lparr>Projectile.ID = ''p'', Owner = ''a'', X = 3, Y = 4, DX = 1, DY = 0,
                Speed = 15, Expiry = 5000000000\<rparr>] \<and>
   card (dom (snd (onMessage moveAndShoot ''p'' 0 alice Map.empty))) = 1"
proof -
  have z: "Shoot.DX (Shoot moveOnly) = 0 \<and> Shoot.DY (Shoot moveOnly) = 0"
    by (simp add: moveOnly_def)
  have n: "Shoot.DX (Shoot moveAndShoot) \<noteq> 0 \<or> Shoot.DY (Shoot moveAndShoot) \<noteq> 0"
    by (simp add: moveAndShoot_def)
  have f: "finite (dom (Map.empty :: string \<rightharpoonup> Projectile)) \<and>
           ''p'' \<notin> dom (Map.empty :: string \<rightharpoonup> Projectile)"
    by simp
  have a: "snd (onMessage moveOnly ''q'' 1 alice Map.empty) = Map.empty"
    using shoot_creates_projectile [of moveOnly "''q''" 1 alice Map.empty] z by blast
  have b: "snd (onMessage moveAndShoot ''p'' 0 alice Map.empty) =
     [''p'' \<mapsto> \<lparr>Projectile.ID = ''p'', Owner = ''a'', X = 3, Y = 4, DX = 1, DY = 0,
                Speed = 15, Expiry = 5000000000\<rparr>]"
    using shoot_creates_projectile [of moveAndShoot "''p''" 0 alice Map.empty] n
    by (simp add: moveAndShoot_def alice_def)
  have c: "card (dom (snd (onMessage moveAndShoot ''p'' 0 alice Map.empty))) = 1"
    using shoot_creates_projectile [of moveAndShoot "''p''" 0 alice Map.empty] n f
    by simp
  show ?thesis
    using a b c by simp
qed



section \<open>The physics tick\<close>

subsection \<open>Auxiliary facts about the three loops\<close>

lemma playersLoop_other_proj:
  "j \<noteq> i \<Longrightarrow> Projectiles (fst (playersLoop i proj ks st)) j = Projectiles st j"
  by (induction ks) (auto split: option.splits prod.splits)

lemma playersLoop_players:
  "map_option markDead (Players (fst (playersLoop i proj ks st)) k) = map_option markDead (Players st k)"
  by (induction ks) (auto simp: markDead_def split: option.splits prod.splits)

lemma playersLoop_events:
  "e \<in> set (snd (playersLoop i proj ks st)) \<Longrightarrow> projOf e = i"
  by (induction ks) (auto split: option.splits prod.splits if_splits)

lemma stepProjectile_other_proj:
  "j \<noteq> i \<Longrightarrow> Projectiles (fst (stepProjectile now ks i st)) j = Projectiles st j"
  by (simp add: stepProjectile_def playersLoop_other_proj case_prod_beta split: option.splits)

lemma stepProjectile_players:
  "map_option markDead (Players (fst (stepProjectile now ks i st)) k) = map_option markDead (Players st k)"
  by (simp add: stepProjectile_def playersLoop_players case_prod_beta split: option.splits)

lemma stepProjectile_events:
  "e \<in> set (snd (stepProjectile now ks i st)) \<Longrightarrow> projOf e = i"
  by (auto simp: stepProjectile_def case_prod_beta dest: playersLoop_events split: option.splits if_splits)

lemma projectilesLoop_Cons:
  "projectilesLoop now order (i # ids) st =
     (fst (projectilesLoop now order ids (fst (stepProjectile now (order i) i st))),
      snd (stepProjectile now (order i) i st) @
      snd (projectilesLoop now order ids (fst (stepProjectile now (order i) i st))))"
  by (simp add: case_prod_beta)

lemma projectilesLoop_players:
  "map_option markDead (Players (fst (projectilesLoop now order ids st)) k) = map_option markDead (Players st k)"
  by (induction ids arbitrary: st) (simp_all add: case_prod_beta stepProjectile_players)

lemma projectilesLoop_skip:
  "i \<notin> set ids \<Longrightarrow>
     Projectiles (fst (projectilesLoop now order ids st)) i = Projectiles st i \<and>
     filter (\<lambda>e. projOf e = i) (snd (projectilesLoop now order ids st)) = []"
proof (induction ids arbitrary: st)
  case Nil
  show ?case by simp
next
  case (Cons j js)
  then have ji: "j \<noteq> i" and "i \<notin> set js" by auto
  have "filter (\<lambda>e. projOf e = i) (snd (stepProjectile now (order j) j st)) = []"
    using ji stepProjectile_events [of _ now "order j" j st] by (auto simp: filter_empty_conv)
  then show ?case
    using Cons.IH [OF \<open>i \<notin> set js\<close>, of "fst (stepProjectile now (order j) j st)"]
          stepProjectile_other_proj [of i j now "order j" st] ji
    by (simp add: case_prod_beta)
qed

lemma projectilesLoop_focus:
  "distinct ids \<Longrightarrow> i \<in> set ids \<Longrightarrow>
     \<exists>st0. Projectiles st0 i = Projectiles st i \<and>
           (\<forall>k. map_option markDead (Players st0 k) = map_option markDead (Players st k)) \<and>
           filter (\<lambda>e. projOf e = i) (snd (projectilesLoop now order ids st)) =
             snd (stepProjectile now (order i) i st0) \<and>
           Projectiles (fst (projectilesLoop now order ids st)) i =
             Projectiles (fst (stepProjectile now (order i) i st0)) i"
proof (induction ids arbitrary: st)
  case Nil
  then show ?case by simp
next
  case (Cons j js)
  let ?st1 = "fst (stepProjectile now (order j) j st)"
  show ?case
  proof (cases "j = i")
    case True
    then have notin: "i \<notin> set js" using Cons.prems by simp
    have own: "filter (\<lambda>e. projOf e = i) (snd (stepProjectile now (order i) i st)) =
                 snd (stepProjectile now (order i) i st)"
      using stepProjectile_events [of _ now "order i" i st] by (simp add: filter_id_conv)
    show ?thesis
      using projectilesLoop_skip [OF notin, of now order "fst (stepProjectile now (order i) i st)"] own True
      by (intro exI [of _ st]) (simp add: case_prod_beta)
  next
    case False
    then have "distinct js" "i \<in> set js" using Cons.prems by auto
    from Cons.IH [OF this, of ?st1] obtain st0 where
      a: "Projectiles st0 i = Projectiles ?st1 i" and
      b: "\<forall>k. map_option markDead (Players st0 k) = map_option markDead (Players ?st1 k)" and
      c: "filter (\<lambda>e. projOf e = i) (snd (projectilesLoop now order js ?st1)) =
             snd (stepProjectile now (order i) i st0)" and
      d: "Projectiles (fst (projectilesLoop now order js ?st1)) i =
             Projectiles (fst (stepProjectile now (order i) i st0)) i"
      by blast
    have e: "filter (\<lambda>e. projOf e = i) (snd (stepProjectile now (order j) j st)) = []"
      using False stepProjectile_events [of _ now "order j" j st] by (auto simp: filter_empty_conv)
    have a': "Projectiles st0 i = Projectiles st i"
      using a stepProjectile_other_proj [of i j now "order j" st] False by simp
    have b': "\<forall>k. map_option markDead (Players st0 k) = map_option markDead (Players st k)"
      using b stepProjectile_players [of now "order j" j st] by simp
    show ?thesis
      using a' b' c d e by (intro exI [of _ st0]) (simp add: case_prod_beta)
  qed
qed


lemma playersLoop_removes:
  "length (filter (removes j) (snd (playersLoop i proj ks st))) \<le> 1"
  by (induction ks) (auto simp: case_prod_beta split: option.splits)

lemma playersLoop_no_Expire:
  "Expire j \<notin> set (snd (playersLoop i proj ks st)) \<and> Advance j \<notin> set (snd (playersLoop i proj ks st))"
  by (induction ks) (auto simp: case_prod_beta split: option.splits)

lemma playersLoop_Hit_last:
  "Hit j k \<in> set (snd (playersLoop i proj ks st)) \<Longrightarrow> last (snd (playersLoop i proj ks st)) = Hit j k"
  by (induction ks) (auto simp: case_prod_beta split: option.splits if_splits)

lemma playersLoop_candidates:
  "Test j k \<in> set (snd (playersLoop i proj ks st)) \<or> Hit j k \<in> set (snd (playersLoop i proj ks st)) \<Longrightarrow>
     \<exists>pl. Players st k = Some pl \<and> Player.ID pl \<noteq> Owner proj"
  by (induction ks) (auto simp: case_prod_beta split: option.splits if_splits)

lemma playersLoop_consumed:
  "\<exists>k\<in>set ks. \<exists>pl. Players st k = Some pl \<and> Player.ID pl \<noteq> Owner proj \<and> overlap pl proj \<Longrightarrow>
     Projectiles (fst (playersLoop i proj ks st)) i = None \<and>
     (\<exists>k. Hit i k \<in> set (snd (playersLoop i proj ks st)))"
  by (induction ks) (auto simp: case_prod_beta split: option.splits if_splits)

lemma stepProjectile_removes:
  "length (filter (removes j) (snd (stepProjectile now ks i st))) \<le> 1"
  using playersLoop_removes [of j i _ ks]
  by (auto simp: stepProjectile_def case_prod_beta split: option.splits)

lemma stepProjectile_Expire:
  "Expire j \<in> set (snd (stepProjectile now ks i st)) \<Longrightarrow>
     snd (stepProjectile now ks i st) = [Expire i]"
  by (auto simp: stepProjectile_def case_prod_beta playersLoop_no_Expire split: option.splits if_splits)

lemma stepProjectile_Hit_last:
  "Hit j k \<in> set (snd (stepProjectile now ks i st)) \<Longrightarrow>
     last (snd (stepProjectile now ks i st)) = Hit j k"
  by (auto simp: stepProjectile_def case_prod_beta dest: playersLoop_Hit_last split: option.splits if_splits)

lemma advance_Owner: "Owner (advance proj) = Owner proj"
  by (simp add: advance_def)

lemma stepProjectile_candidates:
  "Test j k \<in> set (snd (stepProjectile now ks i st)) \<or> Hit j k \<in> set (snd (stepProjectile now ks i st)) \<Longrightarrow>
     \<exists>proj pl. Projectiles st i = Some proj \<and> Players st k = Some pl \<and> Player.ID pl \<noteq> Owner proj"
  by (auto simp: stepProjectile_def case_prod_beta advance_Owner
           dest!: playersLoop_candidates [OF disjI1] playersLoop_candidates [OF disjI2]
           split: option.splits if_splits)

lemma stepProjectile_expired:
  "Projectiles st i = Some proj \<Longrightarrow> Expiry proj < now \<Longrightarrow>
     stepProjectile now ks i st = (st\<lparr>Projectiles := (Projectiles st)(i := None)\<rparr>, [Expire i])"
  by (simp add: stepProjectile_def)

lemma stepProjectile_live:
  "Projectiles st i = Some proj \<Longrightarrow> \<not> Expiry proj < now \<Longrightarrow>
     Expire i \<notin> set (snd (stepProjectile now ks i st)) \<and>
     Advance i \<in> set (snd (stepProjectile now ks i st))"
  by (simp add: stepProjectile_def case_prod_beta playersLoop_no_Expire)


lemma mem_filter_eq:
  "filter P xs = ys \<Longrightarrow> P e \<Longrightarrow> e \<in> set xs \<longleftrightarrow> e \<in> set ys"
  by auto

lemma removes_projOf: "removes i e \<Longrightarrow> projOf e = i"
  by (cases e) auto

lemma filter_removes_focus:
  "filter (removes i) evs = filter (removes i) (filter (\<lambda>e. projOf e = i) evs)"
  by (induction evs) (auto dest: removes_projOf)

lemma projectilesLoop_log:
  assumes "distinct ids"
  shows "\<exists>st0. Projectiles st0 i = (if i \<in> set ids then Projectiles st i else None) \<and>
           (\<forall>k. map_option markDead (Players st0 k) = map_option markDead (Players st k)) \<and>
           filter (\<lambda>e. projOf e = i) (snd (projectilesLoop now order ids st)) =
             snd (stepProjectile now (order i) i st0)"
proof (cases "i \<in> set ids")
  case True
  from projectilesLoop_focus [OF assms True, of st now order]
  show ?thesis using True by auto
next
  case False
  have "snd (stepProjectile now (order i) i (st\<lparr>Projectiles := Map.empty\<rparr>)) = []"
    by (simp add: stepProjectile_def)
  then show ?thesis
    using False projectilesLoop_skip [OF False, of now order st]
    by (intro exI [of _ "st\<lparr>Projectiles := Map.empty\<rparr>"]) simp
qed

lemma markDead_eq_ID: "markDead p = markDead q \<Longrightarrow> Player.ID p = Player.ID q"
  by (cases p, cases q) (simp add: markDead_def)

lemma markDead_eq_overlap: "markDead p = markDead q \<Longrightarrow> overlap p proj = overlap q proj"
  by (cases p, cases q) (simp add: markDead_def overlap_def)

lemma projectilesLoop_candidates:
  assumes "distinct ids"
    and "Test i k \<in> set (snd (projectilesLoop now order ids st)) \<or>
         Hit i k \<in> set (snd (projectilesLoop now order ids st))"
  shows "\<exists>proj pl. Projectiles st i = Some proj \<and> Players st k = Some pl \<and>
           Player.ID pl \<noteq> Owner proj"
proof -
  let ?log = "snd (projectilesLoop now order ids st)"
  from projectilesLoop_log [OF assms(1), of i st now order] obtain st0 where
    a: "Projectiles st0 i = (if i \<in> set ids then Projectiles st i else None)" and
    b: "\<forall>k. map_option markDead (Players st0 k) = map_option markDead (Players st k)" and
    c: "filter (\<lambda>e. projOf e = i) ?log = snd (stepProjectile now (order i) i st0)"
    by blast
  have "Test i k \<in> set (snd (stepProjectile now (order i) i st0)) \<or>
        Hit i k \<in> set (snd (stepProjectile now (order i) i st0))"
    using assms(2) mem_filter_eq [OF c, of "Test i k"] mem_filter_eq [OF c, of "Hit i k"] by simp
  from stepProjectile_candidates [OF this] obtain proj pl0 where
    p: "Projectiles st0 i = Some proj" and q: "Players st0 k = Some pl0" and
    r: "Player.ID pl0 \<noteq> Owner proj"
    by blast
  have p': "Projectiles st i = Some proj"
    using a p by (simp split: if_splits)
  from b q obtain pl where q': "Players st k = Some pl" and s: "markDead pl0 = markDead pl"
    by (metis map_option_eq_Some option.simps(9))
  show ?thesis
    using p' q' r markDead_eq_ID [OF s] by simp
qed


lemma markDead_idem: "markDead (markDead p) = markDead p"
  by (simp add: markDead_def)

lemma playersLoop_marks:
  "Players (fst (playersLoop i proj ks st)) k =
     (if \<exists>e\<in>set (snd (playersLoop i proj ks st)). hits k e
      then map_option markDead (Players st k) else Players st k)"
  by (induction ks) (auto simp: case_prod_beta markDead_def [symmetric] split: option.splits)

lemma stepProjectile_marks:
  "Players (fst (stepProjectile now ks i st)) k =
     (if \<exists>e\<in>set (snd (stepProjectile now ks i st)). hits k e
      then map_option markDead (Players st k) else Players st k)"
  using playersLoop_marks [of i _ ks _ k]
  by (auto simp: stepProjectile_def case_prod_beta split: option.splits)

lemma projectilesLoop_marks:
  "Players (fst (projectilesLoop now order ids st)) k =
     (if \<exists>e\<in>set (snd (projectilesLoop now order ids st)). hits k e
      then map_option markDead (Players st k) else Players st k)"
proof (induction ids arbitrary: st)
  case Nil
  show ?case by simp
next
  case (Cons j js)
  show ?case
    using Cons.IH [of "fst (stepProjectile now (order j) j st)"]
          stepProjectile_marks [of now "order j" j st k]
    by (auto simp: case_prod_beta option.map_comp comp_def markDead_idem)
qed

lemma hits_cases: "hits k e \<Longrightarrow> \<exists>i. e = Hit i k"
  by (cases e) auto

lemma playersLoop_projs:
  "Projectiles (fst (playersLoop i proj ks st)) =
     (if \<exists>e\<in>set (snd (playersLoop i proj ks st)). removes i e
      then (Projectiles st)(i := None) else Projectiles st)"
  by (induction ks) (auto simp: case_prod_beta split: option.splits)

lemma playersLoop_log_rel:
  assumes "\<forall>k. map_option markDead (Players s k) = map_option markDead (Players t k)"
  shows "snd (playersLoop i proj ks s) = snd (playersLoop i proj ks t)"
proof (induction ks)
  case Nil
  show ?case by simp
next
  case (Cons k ks)
  show ?case
  proof (cases "Players s k")
    case None
    then have "Players t k = None" using assms by (metis option.map_disc_iff)
    then show ?thesis using None Cons.IH by simp
  next
    case (Some p)
    then obtain q where q: "Players t k = Some q" and pq: "markDead p = markDead q"
      using assms by (metis map_option_eq_Some option.simps(9))
    show ?thesis
      using Some q Cons.IH markDead_eq_ID [OF pq] markDead_eq_overlap [OF pq, of proj]
      by (simp add: case_prod_beta)
  qed
qed

lemma stepProjectile_rel:
  assumes "Projectiles s = Projectiles t"
    and "\<forall>k. map_option markDead (Players s k) = map_option markDead (Players t k)"
  shows "snd (stepProjectile now ks i s) = snd (stepProjectile now ks i t) \<and>
         Projectiles (fst (stepProjectile now ks i s)) = Projectiles (fst (stepProjectile now ks i t))"
proof -
  have "snd (playersLoop i proj ks (s\<lparr>Projectiles := m\<rparr>)) =
        snd (playersLoop i proj ks (t\<lparr>Projectiles := m\<rparr>))" for proj m
    using assms(2) by (intro playersLoop_log_rel) simp
  then show ?thesis
    using assms(1)
    by (simp add: stepProjectile_def case_prod_beta playersLoop_projs split: option.splits)
qed

lemma projectilesLoop_rel:
  assumes "Projectiles s = Projectiles t"
    and "\<forall>k. map_option markDead (Players s k) = map_option markDead (Players t k)"
  shows "snd (projectilesLoop now order ids s) = snd (projectilesLoop now order ids t) \<and>
         Projectiles (fst (projectilesLoop now order ids s)) =
           Projectiles (fst (projectilesLoop now order ids t))"
  using assms
proof (induction ids arbitrary: s t)
  case Nil
  then show ?case by simp
next
  case (Cons j js)
  let ?s1 = "fst (stepProjectile now (order j) j s)"
  let ?t1 = "fst (stepProjectile now (order j) j t)"
  have a: "snd (stepProjectile now (order j) j s) = snd (stepProjectile now (order j) j t)"
    and b: "Projectiles ?s1 = Projectiles ?t1"
    using stepProjectile_rel [OF Cons.prems, of now "order j" j] by simp_all
  have c: "\<forall>k. map_option markDead (Players ?s1 k) = map_option markDead (Players ?t1 k)"
    using Cons.prems(2) by (simp add: stepProjectile_players)
  show ?case
    using Cons.IH [OF b c] a by (simp add: case_prod_beta)
qed

lemma setDead_rel:
  "Projectiles (setDead f st) = Projectiles st \<and>
   (\<forall>k. map_option markDead (Players (setDead f st) k) = map_option markDead (Players st k))"
proof -
  have "markDead (p\<lparr>Dead := d\<rparr>) = markDead p" for p d
    by (simp add: markDead_def)
  then show ?thesis
    by (simp add: setDead_def option.map_comp comp_def)
qed


lemma stepProjectile_consumed:
  assumes "Projectiles st i = Some proj" and "\<not> Expiry proj < now" and "k \<in> set ks"
    and "Players st k = Some pl" and "Player.ID pl \<noteq> Owner proj" and "overlap pl (advance proj)"
  shows "Projectiles (fst (stepProjectile now ks i st)) i = None \<and>
         (\<exists>k'. Hit i k' \<in> set (snd (stepProjectile now ks i st)))"
proof -
  let ?st1 = "st\<lparr>Projectiles := (Projectiles st)(i \<mapsto> advance proj)\<rparr>"
  have "\<exists>k\<in>set ks. \<exists>pl. Players ?st1 k = Some pl \<and> Player.ID pl \<noteq> Owner (advance proj) \<and>
          overlap pl (advance proj)"
    using assms(3,4,5,6) by (auto simp: advance_Owner)
  from playersLoop_consumed [OF this, of i]
  show ?thesis
    using assms(1,2) by (auto simp: stepProjectile_def case_prod_beta)
qed

lemma stepProjectile_live_entry:
  assumes "Projectiles st i = Some proj" and "\<not> Expiry proj < now"
  shows "Projectiles (fst (stepProjectile now ks i st)) i =
           (if filter (removes i) (snd (stepProjectile now ks i st)) = []
            then Some (advance proj) else None)"
  using assms
  by (auto simp: stepProjectile_def case_prod_beta playersLoop_projs filter_empty_conv)

subsection \<open>Expiry\<close>

text \<open>
  C3, as the code has it. In one physics tick that visits the projectile \<open>i\<close>: when the
  tick's time is strictly after the projectile's expiry, the projectile is removed from
  the store and the only thing the tick does with it is that removal (it is neither
  advanced nor tested against any player). When the tick's time is not strictly after the
  expiry, and so also when the two are equal, the projectile is not removed for expiry:
  it is advanced, and it stays in the store, advanced, unless a collision removes it.
\<close>

theorem expired_projectile_removed:
  assumes "distinct ids" and "i \<in> set ids" and "Projectiles st i = Some proj"
  shows "(Expiry proj < now \<longrightarrow>
            Projectiles (fst (updateProjectiles now order ids st)) i = None \<and>
            filter (\<lambda>e. projOf e = i) (snd (updateProjectiles now order ids st)) = [Expire i]) \<and>
         (\<not> Expiry proj < now \<longrightarrow>
            Expire i \<notin> set (snd (updateProjectiles now order ids st)) \<and>
            Advance i \<in> set (snd (updateProjectiles now order ids st)) \<and>
            Projectiles (fst (updateProjectiles now order ids st)) i =
              (if filter (removes i) (snd (updateProjectiles now order ids st)) = []
               then Some (advance proj) else None))"
proof -
  let ?log = "snd (projectilesLoop now order ids st)"
  from projectilesLoop_focus [OF assms(1,2), of st now order] obtain st0 where
    a: "Projectiles st0 i = Projectiles st i" and
    c: "filter (\<lambda>e. projOf e = i) ?log = snd (stepProjectile now (order i) i st0)" and
    d: "Projectiles (fst (projectilesLoop now order ids st)) i =
          Projectiles (fst (stepProjectile now (order i) i st0)) i"
    by blast
  have p: "Projectiles st0 i = Some proj"
    using a assms(3) by simp
  have old: "Expiry proj < now \<longrightarrow>
      Projectiles (fst (projectilesLoop now order ids st)) i = None \<and>
      filter (\<lambda>e. projOf e = i) ?log = [Expire i]"
    using c d stepProjectile_expired [OF p, of now "order i"] by simp
  have r: "filter (removes i) ?log = filter (removes i) (snd (stepProjectile now (order i) i st0))"
    using c by (subst filter_removes_focus) simp
  have live: "\<not> Expiry proj < now \<longrightarrow>
      Expire i \<notin> set ?log \<and> Advance i \<in> set ?log \<and>
      Projectiles (fst (projectilesLoop now order ids st)) i =
        (if filter (removes i) ?log = [] then Some (advance proj) else None)"
    using stepProjectile_live [OF p, of now "order i"]
          stepProjectile_live_entry [OF p, of now "order i"]
          mem_filter_eq [OF c, of "Expire i"] mem_filter_eq [OF c, of "Advance i"] d r
    by simp
  show ?thesis
    using old live by (simp add: updateProjectiles_def)
qed

lemma flight_tick:
  "updateProjectiles now (everyTime []) [''p''] flightStore =
     (if 100 < now then (flightStore\<lparr>Projectiles := Map.empty\<rparr>, [Expire ''p''])
      else (flightStore\<lparr>Projectiles := [''p'' \<mapsto> advance shot]\<rparr>, [Advance ''p'']))"
  by (simp add: updateProjectiles_def stepProjectile_def flightStore_def shot_def everyTime_def)

theorem expired_projectile_removed_witness:
  "distinct [''p''] \<and> ''p'' \<in> set [''p''] \<and> Projectiles flightStore ''p'' = Some shot \<and>
   Expiry shot < 101 \<and>
   Projectiles (fst (updateProjectiles 101 (everyTime []) [''p''] flightStore)) ''p'' = None \<and>
   filter (\<lambda>e. projOf e = ''p'')
     (snd (updateProjectiles 101 (everyTime []) [''p''] flightStore)) = [Expire ''p''] \<and>
   \<not> Expiry shot < 100 \<and>
   Expire ''p'' \<notin> set (snd (updateProjectiles 100 (everyTime []) [''p''] flightStore)) \<and>
   Advance ''p'' \<in> set (snd (updateProjectiles 100 (everyTime []) [''p''] flightStore)) \<and>
   Projectiles (fst (updateProjectiles 100 (everyTime []) [''p''] flightStore)) ''p'' =
     Some (advance shot)"
proof -
  have h1: "distinct [''p'']" and h2: "''p'' \<in> set [''p'']"
    by simp_all
  have h3: "Projectiles flightStore ''p'' = Some shot"
    by (simp add: flightStore_def)
  have e: "Expiry shot = 100"
    by (simp add: shot_def)
  have q: "filter (removes ''p'')
             (snd (updateProjectiles 100 (everyTime []) [''p''] flightStore)) = []"
    by (simp add: flight_tick)
  show ?thesis
    using expired_projectile_removed [OF h1 h2 h3, where now = 101 and order = "everyTime []"]
          expired_projectile_removed [OF h1 h2 h3, where now = 100 and order = "everyTime []"]
          h3 e q
    by simp
qed

text \<open>
  Counterexample to C3 as stated, at a tick whose time equals the expiry: the projectile
  \<open>p\<close>, which expires at time 100, is still in the store after the tick at time 100,
  and the tick has advanced it to x = 50.
\<close>

theorem projectile_at_expiry_survives:
  "Projectiles flightStore ''p'' = Some shot \<and> Expiry shot = 100 \<and>
   Projectiles (fst (updateProjectiles 100 (everyTime []) [''p''] flightStore)) ''p'' =
     Some (advance shot) \<and>
   Projectile.X (advance shot) = 50 \<and>
   snd (updateProjectiles 100 (everyTime []) [''p''] flightStore) = [Advance ''p'']"
  by (simp add: flight_tick) (simp add: flightStore_def shot_def advance_def)

subsection \<open>The tick on the concrete arena\<close>

lemma arena_tick_log:
  "snd (updateProjectiles 50 (everyTime [''a'', ''b'']) [''q'', ''p''] arenaStore) =
     [Expire ''q'', Advance ''p'', Test ''p'' ''b'', Hit ''p'' ''b'']"
  by (simp add: updateProjectiles_def stepProjectile_def arenaStore_def shot_def stale_def
        alice_def bob_def everyTime_def advance_def overlap_def)

lemma arena_tick_store:
  "Projectiles (fst (updateProjectiles 50 (everyTime [''a'', ''b'']) [''q'', ''p''] arenaStore)) =
     Map.empty \<and>
   Players (fst (updateProjectiles 50 (everyTime [''a'', ''b'']) [''q'', ''p''] arenaStore)) =
     [''a'' \<mapsto> alice, ''b'' \<mapsto> bob]"
  by (auto simp: updateProjectiles_def stepProjectile_def arenaStore_def shot_def stale_def
        alice_def bob_def everyTime_def advance_def overlap_def)

lemma arena_facts:
  "Projectiles arenaStore ''p'' = Some shot" "Projectiles arenaStore ''q'' = Some stale"
  "Players arenaStore ''a'' = Some alice" "Players arenaStore ''b'' = Some bob"
  by (simp_all add: arenaStore_def)

lemma shot_reaches_spawn:
  "overlap alice (advance shot)" "overlap bob (advance shot)"
  by (simp_all add: overlap_def advance_def shot_def alice_def bob_def)

subsection \<open>One removal for each projectile\<close>

lemma stepProjectile_entry:
  "Projectiles (fst (stepProjectile now ks i st)) i =
     (if filter (removes i) (snd (stepProjectile now ks i st)) = []
      then map_option advance (Projectiles st i) else None)"
proof (cases "Projectiles st i")
  case None
  then show ?thesis by (simp add: stepProjectile_def)
next
  case (Some proj)
  show ?thesis
  proof (cases "Expiry proj < now")
    case True
    then show ?thesis using Some by (simp add: stepProjectile_expired)
  next
    case False
    then show ?thesis using Some stepProjectile_live_entry [OF Some False, of ks] by simp
  qed
qed

lemma projectilesLoop_entry:
  assumes "distinct ids"
  shows "Projectiles (fst (projectilesLoop now order ids st)) i =
           (if filter (removes i) (snd (projectilesLoop now order ids st)) \<noteq> [] then None
            else if i \<in> set ids then map_option advance (Projectiles st i)
            else Projectiles st i)"
proof (cases "i \<in> set ids")
  case True
  from projectilesLoop_focus [OF assms True, of st now order] obtain st0 where
    a: "Projectiles st0 i = Projectiles st i" and
    c: "filter (\<lambda>e. projOf e = i) (snd (projectilesLoop now order ids st)) =
          snd (stepProjectile now (order i) i st0)" and
    d: "Projectiles (fst (projectilesLoop now order ids st)) i =
          Projectiles (fst (stepProjectile now (order i) i st0)) i"
    by blast
  have r: "filter (removes i) (snd (projectilesLoop now order ids st)) =
           filter (removes i) (snd (stepProjectile now (order i) i st0))"
    using c by (subst filter_removes_focus) simp
  show ?thesis
    using True a d r stepProjectile_entry [of now "order i" i st0] by simp
next
  case False
  have "filter (removes i) (snd (projectilesLoop now order ids st)) = []"
    using projectilesLoop_skip [OF False, of now order st]
    by (subst filter_removes_focus) simp
  then show ?thesis
    using False projectilesLoop_skip [OF False, of now order st] by simp
qed

text \<open>
  C6. In one physics tick (each projectile visited once) a projectile is deleted at most
  once, by expiry or by a hit, and so marks at most one player dead. When it is deleted
  for expiry, that deletion is all the tick does with it: it is not advanced and not
  tested against any player. When it hits a player, the hit is the last thing the tick
  does with it: no further player is tested. The events account for the store: after the
  tick a projectile is absent when it was deleted, and otherwise is the old entry,
  advanced when visited; a player is changed, by having its flag set, only when hit.
\<close>

theorem one_removal_per_projectile:
  assumes "distinct ids"
  shows "length (filter (removes i) (snd (updateProjectiles now order ids st))) \<le> 1 \<and>
         (Expire i \<in> set (snd (updateProjectiles now order ids st)) \<longrightarrow>
            filter (\<lambda>e. projOf e = i) (snd (updateProjectiles now order ids st)) = [Expire i]) \<and>
         (Hit i k \<in> set (snd (updateProjectiles now order ids st)) \<longrightarrow>
            last (filter (\<lambda>e. projOf e = i) (snd (updateProjectiles now order ids st))) = Hit i k) \<and>
         Projectiles (fst (updateProjectiles now order ids st)) i =
           (if filter (removes i) (snd (updateProjectiles now order ids st)) \<noteq> [] then None
            else if i \<in> set ids then map_option advance (Projectiles st i)
            else Projectiles st i) \<and>
         Players (fst (updateProjectiles now order ids st)) k =
           (if \<exists>e\<in>set (snd (updateProjectiles now order ids st)). hits k e
            then map_option markDead (Players st k) else Players st k)"
proof -
  let ?log = "snd (projectilesLoop now order ids st)"
  from projectilesLoop_log [OF assms, of i st now order] obtain st0 where
    c: "filter (\<lambda>e. projOf e = i) ?log = snd (stepProjectile now (order i) i st0)"
    by blast
  have one: "length (filter (removes i) ?log) \<le> 1"
    using stepProjectile_removes [of i now "order i" i st0] c
    by (subst filter_removes_focus) simp
  have exp: "Expire i \<in> set ?log \<longrightarrow> filter (\<lambda>e. projOf e = i) ?log = [Expire i]"
    using mem_filter_eq [OF c, of "Expire i"] stepProjectile_Expire [of i now "order i" i st0] c
    by simp
  have hit: "Hit i k \<in> set ?log \<longrightarrow> last (filter (\<lambda>e. projOf e = i) ?log) = Hit i k"
    using mem_filter_eq [OF c, of "Hit i k"] stepProjectile_Hit_last [of i k now "order i" i st0] c
    by simp
  show ?thesis
    unfolding updateProjectiles_def
    using one exp hit projectilesLoop_entry [OF assms, of now order st i]
          projectilesLoop_marks [of now order ids st k]
    by blast
qed

theorem one_removal_per_projectile_witness:
  "distinct [''q'', ''p''] \<and>
   length (filter (removes ''p'')
     (snd (updateProjectiles 50 (everyTime [''a'', ''b'']) [''q'', ''p''] arenaStore))) \<le> 1 \<and>
   Expire ''q'' \<in> set (snd (updateProjectiles 50 (everyTime [''a'', ''b'']) [''q'', ''p''] arenaStore)) \<and>
   filter (\<lambda>e. projOf e = ''q'')
     (snd (updateProjectiles 50 (everyTime [''a'', ''b'']) [''q'', ''p''] arenaStore)) = [Expire ''q''] \<and>
   Hit ''p'' ''b'' \<in> set (snd (updateProjectiles 50 (everyTime [''a'', ''b'']) [''q'', ''p''] arenaStore)) \<and>
   last (filter (\<lambda>e. projOf e = ''p'')
     (snd (updateProjectiles 50 (everyTime [''a'', ''b'']) [''q'', ''p''] arenaStore))) = Hit ''p'' ''b''"
proof -
  have d: "distinct [''q'', ''p'']"
    by simp
  have e: "Expire ''q'' \<in> set (snd (updateProjectiles 50 (everyTime [''a'', ''b'']) [''q'', ''p''] arenaStore))"
    and h: "Hit ''p'' ''b'' \<in> set (snd (updateProjectiles 50 (everyTime [''a'', ''b'']) [''q'', ''p''] arenaStore))"
    by (simp_all add: arena_tick_log)
  show ?thesis
    using one_removal_per_projectile [OF d, where i = "''p''" and k = "''b''" and now = 50
            and order = "everyTime [''a'', ''b'']" and st = arenaStore]
          one_removal_per_projectile [OF d, where i = "''q''" and k = "''b''" and now = 50
            and order = "everyTime [''a'', ''b'']" and st = arenaStore]
          d e h
    by blast
qed

subsection \<open>The overlap test\<close>










subsection \<open>The owner\<close>

text \<open>
  C8. In one physics tick, a projectile is never tested against the player whose id is
  the projectile's owner id and never hits that player, wherever the two are: that player
  is not marked dead by it and does not consume it. In a store where every projectile is
  owned by that player, the tick leaves the player as it was.
\<close>

theorem owner_never_hit:
  assumes "distinct ids" and "Projectiles st i = Some proj" and "Players st k = Some player"
    and "Player.ID player = Owner proj"
  shows "Test i k \<notin> set (snd (updateProjectiles now order ids st)) \<and>
         Hit i k \<notin> set (snd (updateProjectiles now order ids st)) \<and>
         ((\<forall>j q. Projectiles st j = Some q \<longrightarrow> Owner q = Player.ID player) \<longrightarrow>
            Players (fst (updateProjectiles now order ids st)) k = Some player)"
proof -
  let ?log = "snd (projectilesLoop now order ids st)"
  have no: "\<not> (Test i k \<in> set ?log \<or> Hit i k \<in> set ?log)"
  proof
    assume "Test i k \<in> set ?log \<or> Hit i k \<in> set ?log"
    from projectilesLoop_candidates [OF assms(1) this]
    show False using assms(2,3,4) by simp
  qed
  have "\<not> (\<exists>e\<in>set ?log. hits k e)"
    if all: "\<forall>j q. Projectiles st j = Some q \<longrightarrow> Owner q = Player.ID player"
  proof
    assume "\<exists>e\<in>set ?log. hits k e"
    then obtain e where e: "e \<in> set ?log" "hits k e" by blast
    then obtain j where "e = Hit j k" using hits_cases by blast
    then have "Test j k \<in> set ?log \<or> Hit j k \<in> set ?log" using e by simp
    from projectilesLoop_candidates [OF assms(1) this]
    show False using assms(3) all by auto
  qed
  then have "(\<forall>j q. Projectiles st j = Some q \<longrightarrow> Owner q = Player.ID player) \<longrightarrow>
      Players (fst (projectilesLoop now order ids st)) k = Some player"
    using projectilesLoop_marks [of now order ids st k] assms(3) by simp
  then show ?thesis
    using no by (simp add: updateProjectiles_def)
qed

theorem owner_never_hit_witness:
  "distinct [''q'', ''p''] \<and> Projectiles arenaStore ''p'' = Some shot \<and>
   Players arenaStore ''a'' = Some alice \<and> Player.ID alice = Owner shot \<and>
   overlap alice (advance shot) \<and>
   Test ''p'' ''a'' \<notin> set (snd (updateProjectiles 50 (everyTime [''a'', ''b'']) [''q'', ''p''] arenaStore)) \<and>
   Hit ''p'' ''a'' \<notin> set (snd (updateProjectiles 50 (everyTime [''a'', ''b'']) [''q'', ''p''] arenaStore)) \<and>
   Players (fst (updateProjectiles 50 (everyTime [''a'', ''b'']) [''q'', ''p''] arenaStore)) ''a'' =
     Some alice"
proof -
  have d: "distinct [''q'', ''p'']"
    by simp
  have o: "Player.ID alice = Owner shot"
    by (simp add: alice_def shot_def)
  have own: "\<forall>j q. Projectiles arenaStore j = Some q \<longrightarrow> Owner q = Player.ID alice"
    by (auto simp: arenaStore_def shot_def stale_def alice_def split: if_splits)
  show ?thesis
    using owner_never_hit [OF d arena_facts(1) arena_facts(3) o, where now = 50
            and order = "everyTime [''a'', ''b'']"]
          d arena_facts(1) arena_facts(3) o own shot_reaches_spawn(1)
    by blast
qed

subsection \<open>Dead players\<close>

text \<open>
  C2, as the code has it. The collision step never reads the \<open>Dead\<close> flag: whatever the
  flags of the players are, the tick does the same things, in the same order, and leaves
  the same projectiles in the store. The hit targets of a projectile are the players other
  than its owner, dead or alive: when the tick visits a live projectile and some player
  other than its owner overlaps it after the advance, the projectile is consumed by a hit.
\<close>

theorem dead_players_are_targets:
  "snd (updateProjectiles now order ids (setDead f st)) =
     snd (updateProjectiles now order ids st) \<and>
   Projectiles (fst (updateProjectiles now order ids (setDead f st))) =
     Projectiles (fst (updateProjectiles now order ids st)) \<and>
   (distinct ids \<and> i \<in> set ids \<and> Projectiles st i = Some proj \<and> \<not> Expiry proj < now \<and>
    k \<in> set (order i) \<and> Players st k = Some pl \<and> Player.ID pl \<noteq> Owner proj \<and>
    overlap pl (advance proj) \<longrightarrow>
      Projectiles (fst (updateProjectiles now order ids st)) i = None \<and>
      (\<exists>k'. Hit i k' \<in> set (snd (updateProjectiles now order ids st))))"
proof -
  have rel: "Projectiles (setDead f st) = Projectiles st"
    "\<forall>k. map_option markDead (Players (setDead f st) k) = map_option markDead (Players st k)"
    using setDead_rel [of f st] by simp_all
  have indep:
    "snd (projectilesLoop now order ids (setDead f st)) = snd (projectilesLoop now order ids st) \<and>
     Projectiles (fst (projectilesLoop now order ids (setDead f st))) =
       Projectiles (fst (projectilesLoop now order ids st))"
    by (rule projectilesLoop_rel [OF rel])
  have cons: "Projectiles (fst (projectilesLoop now order ids st)) i = None \<and>
      (\<exists>k'. Hit i k' \<in> set (snd (projectilesLoop now order ids st)))"
    if h: "distinct ids" "i \<in> set ids" "Projectiles st i = Some proj" "\<not> Expiry proj < now"
      "k \<in> set (order i)" "Players st k = Some pl" "Player.ID pl \<noteq> Owner proj"
      "overlap pl (advance proj)"
  proof -
    from projectilesLoop_focus [OF h(1,2), of st now order] obtain st0 where
      a: "Projectiles st0 i = Projectiles st i" and
      b: "\<forall>k. map_option markDead (Players st0 k) = map_option markDead (Players st k)" and
      c: "filter (\<lambda>e. projOf e = i) (snd (projectilesLoop now order ids st)) =
            snd (stepProjectile now (order i) i st0)" and
      d: "Projectiles (fst (projectilesLoop now order ids st)) i =
            Projectiles (fst (stepProjectile now (order i) i st0)) i"
      by blast
    from b h(6) obtain pl0 where q: "Players st0 k = Some pl0" and s: "markDead pl0 = markDead pl"
      by (metis map_option_eq_Some option.simps(9))
    have p: "Projectiles st0 i = Some proj"
      using a h(3) by simp
    have "Player.ID pl0 \<noteq> Owner proj" "overlap pl0 (advance proj)"
      using h(7,8) markDead_eq_ID [OF s] markDead_eq_overlap [OF s] by simp_all
    from stepProjectile_consumed [OF p h(4,5) q this] obtain k' where
      e: "Projectiles (fst (stepProjectile now (order i) i st0)) i = None" and
      f: "Hit i k' \<in> set (snd (stepProjectile now (order i) i st0))"
      by blast
    have "Hit i k' \<in> set (snd (projectilesLoop now order ids st))"
      using mem_filter_eq [OF c, of "Hit i k'"] f by simp
    then show ?thesis
      using d e by auto
  qed
  show ?thesis
    using indep cons by (simp add: updateProjectiles_def)
qed

theorem dead_players_are_targets_witness:
  "snd (updateProjectiles 50 (everyTime [''a'', ''b'']) [''q'', ''p''] (setDead allAlive arenaStore)) =
     snd (updateProjectiles 50 (everyTime [''a'', ''b'']) [''q'', ''p''] arenaStore) \<and>
   Projectiles (fst (updateProjectiles 50 (everyTime [''a'', ''b'']) [''q'', ''p'']
                  (setDead allAlive arenaStore))) =
     Projectiles (fst (updateProjectiles 50 (everyTime [''a'', ''b'']) [''q'', ''p''] arenaStore)) \<and>
   distinct [''q'', ''p''] \<and> ''p'' \<in> set [''q'', ''p''] \<and>
   Projectiles arenaStore ''p'' = Some shot \<and> \<not> Expiry shot < 50 \<and>
   ''b'' \<in> set (everyTime [''a'', ''b''] ''p'') \<and> Players arenaStore ''b'' = Some bob \<and>
   Dead bob \<and> Player.ID bob \<noteq> Owner shot \<and> overlap bob (advance shot) \<and>
   Projectiles (fst (updateProjectiles 50 (everyTime [''a'', ''b'']) [''q'', ''p''] arenaStore)) ''p'' =
     None \<and>
   Hit ''p'' ''b'' \<in> set (snd (updateProjectiles 50 (everyTime [''a'', ''b'']) [''q'', ''p''] arenaStore))"
proof -
  have h: "distinct [''q'', ''p''] \<and> ''p'' \<in> set [''q'', ''p''] \<and>
           Projectiles arenaStore ''p'' = Some shot \<and> \<not> Expiry shot < 50 \<and>
           ''b'' \<in> set (everyTime [''a'', ''b''] ''p'') \<and> Players arenaStore ''b'' = Some bob \<and>
           Player.ID bob \<noteq> Owner shot \<and> overlap bob (advance shot)"
    using arena_facts shot_reaches_spawn by (simp add: shot_def bob_def everyTime_def)
  have d: "Dead bob"
    by (simp add: bob_def)
  have l: "Hit ''p'' ''b'' \<in>
             set (snd (updateProjectiles 50 (everyTime [''a'', ''b'']) [''q'', ''p''] arenaStore))"
    by (simp add: arena_tick_log)
  show ?thesis
    using dead_players_are_targets [where now = 50 and order = "everyTime [''a'', ''b'']"
            and ids = "[''q'', ''p'']" and f = allAlive and st = arenaStore and i = "''p''"
            and proj = shot and k = "''b''" and pl = bob]
          h d l
    by blast
qed

text \<open>
  Counterexample to C2 as stated: the player \<open>b\<close> is dead before the tick and is not the
  owner of the projectile \<open>p\<close>, and yet the tick tests \<open>p\<close> against \<open>b\<close>, marks \<open>b\<close>
  dead again and deletes \<open>p\<close>.
\<close>

theorem dead_player_consumes_projectile:
  "Players arenaStore ''b'' = Some bob \<and> Dead bob \<and>
   Projectiles arenaStore ''p'' = Some shot \<and> Owner shot = ''a'' \<and>
   snd (updateProjectiles 50 (everyTime [''a'', ''b'']) [''q'', ''p''] arenaStore) =
     [Expire ''q'', Advance ''p'', Test ''p'' ''b'', Hit ''p'' ''b''] \<and>
   Projectiles (fst (updateProjectiles 50 (everyTime [''a'', ''b'']) [''q'', ''p''] arenaStore)) ''p'' =
     None"
  using arena_tick_log arena_tick_store arena_facts
  by (simp add: bob_def shot_def)

section \<open>The broadcast tick and the round reset\<close>

lemma countLoop_card:
  "distinct ks \<Longrightarrow>
     countLoop ks players n = n + card {k \<in> set ks. \<exists>p. players k = Some p \<and> \<not> Dead p}"
proof (induction ks arbitrary: n)
  case Nil
  show ?case by simp
next
  case (Cons k ks)
  let ?A = "{k' \<in> set ks. \<exists>p. players k' = Some p \<and> \<not> Dead p}"
  have fin: "finite ?A" by simp
  have notin: "k \<notin> ?A" using Cons.prems by simp
  have ih: "countLoop ks players m = m + card ?A" for m
    using Cons.IH Cons.prems by simp
  show ?case
  proof (cases "\<exists>p. players k = Some p \<and> \<not> Dead p")
    case True
    then have "{k' \<in> set (k # ks). \<exists>p. players k' = Some p \<and> \<not> Dead p} = insert k ?A"
      by auto
    then show ?thesis
      using True ih fin notin by auto
  next
    case False
    then have "{k' \<in> set (k # ks). \<exists>p. players k' = Some p \<and> \<not> Dead p} = ?A"
      by auto
    then show ?thesis
      using False ih by (auto split: option.splits)
  qed
qed

lemma resetLoop_apply:
  "resetLoop ks players k =
     (if k \<in> set ks then map_option respawn (players k) else players k)"
proof (induction ks arbitrary: players)
  case Nil
  show ?case by simp
next
  case (Cons k' ks)
  show ?case
  proof (cases "players k'")
    case None
    then show ?thesis using Cons.IH [of players] by auto
  next
    case (Some p)
    have idem: "respawn (respawn p) = respawn p"
      by (simp add: respawn_def)
    have step: "resetLoop (k' # ks) players = resetLoop ks (players(k' \<mapsto> respawn p))"
      using Some by (simp add: respawn_def)
    show ?thesis
      unfolding step using Some by (simp add: Cons.IH idem)
  qed
qed

lemma sendLoop_neverFails: "sendLoop neverFails ks st = st"
  by (induction ks) (simp_all add: neverFails_def split: option.splits)

text \<open>
  C9. The round reset makes every player of the store alive and puts it at the spawn
  point (50,50), and changes nothing else: each player keeps its id, the store has the
  same keys as before, and the projectile map is the same map.
\<close>

theorem reset_effect:
  assumes "set ks = dom (Players st)"
  shows "Projectiles (roundReset ks st) = Projectiles st \<and>
         dom (Players (roundReset ks st)) = dom (Players st) \<and>
         (\<forall>k p. Players st k = Some p \<longrightarrow>
            Players (roundReset ks st) k =
              Some \<lparr>Player.ID = Player.ID p, X = 50, Y = 50, Dead = False\<rparr>)"
proof -
  have a: "Players (roundReset ks st) k = map_option respawn (Players st k)" for k
    using assms by (auto simp: roundReset_def resetLoop_apply domIff)
  have b: "respawn p = \<lparr>Player.ID = Player.ID p, X = 50, Y = 50, Dead = False\<rparr>" for p
    by (cases p) (simp add: respawn_def)
  have "dom (Players (roundReset ks st)) = dom (Players st)"
    using a by (auto simp: domIff)
  then show ?thesis
    using a b by (simp add: roundReset_def)
qed

theorem reset_effect_witness:
  "set [''b'', ''a''] = dom (Players arenaStore) \<and>
   Projectiles (roundReset [''b'', ''a''] arenaStore) = Projectiles arenaStore \<and>
   Projectiles (roundReset [''b'', ''a''] arenaStore) ''p'' = Some shot \<and>
   dom (Players (roundReset [''b'', ''a''] arenaStore)) = dom (Players arenaStore) \<and>
   Players arenaStore ''b'' = Some bob \<and>
   Players (roundReset [''b'', ''a''] arenaStore) ''b'' =
     Some \<lparr>Player.ID = ''b'', X = 50, Y = 50, Dead = False\<rparr>"
proof -
  have h: "set [''b'', ''a''] = dom (Players arenaStore)"
    by (auto simp: arenaStore_def)
  have i: "Player.ID bob = ''b''"
    by (simp add: bob_def)
  show ?thesis
    using reset_effect [OF h] h arena_facts i by simp
qed

text \<open>
  C1, as the code has it. A broadcast tick resets the round exactly when the number of
  players that are not dead is 1, whatever the total number of players: the store after
  the tick is the store after the sends with the reset applied when that number is 1, and
  the store after the sends otherwise. So a store whose only player is alive is reset by
  the tick.
\<close>

theorem reset_when_one_alive:
  assumes "distinct cs" and "set cs = dom (Players st)"
  shows "fst (broadcastState cs ss rs fails st) =
           (if card {k. \<exists>p. Players st k = Some p \<and> \<not> Dead p} = 1
            then roundReset rs (sendLoop fails ss st)
            else sendLoop fails ss st) \<and>
         ((\<exists>k p. Players st = [k \<mapsto> p] \<and> \<not> Dead p) \<longrightarrow>
            fst (broadcastState cs ss rs fails st) = roundReset rs (sendLoop fails ss st))"
proof -
  have "{k \<in> set cs. \<exists>p. Players st k = Some p \<and> \<not> Dead p} =
        {k. \<exists>p. Players st k = Some p \<and> \<not> Dead p}"
    using assms(2) by auto
  then have c: "countLoop cs (Players st) 0 = card {k. \<exists>p. Players st k = Some p \<and> \<not> Dead p}"
    using countLoop_card [OF assms(1), of "Players st" 0] by simp
  have "card {k'. \<exists>p'. Players st k' = Some p' \<and> \<not> Dead p'} = 1"
    if "Players st = [k \<mapsto> p]" and "\<not> Dead p" for k p
  proof -
    have "{k'. \<exists>p'. Players st k' = Some p' \<and> \<not> Dead p'} = {k}"
      using that by (auto split: if_splits)
    then show ?thesis by simp
  qed
  then show ?thesis
    using c by (auto simp: broadcastState_def Let_def)
qed

lemma arena_alive:
  "{k. \<exists>p. Players arenaStore k = Some p \<and> \<not> Dead p} = {''a''}"
  by (auto simp: arenaStore_def alice_def bob_def split: if_splits)

theorem reset_when_one_alive_witness:
  "distinct [''a'', ''b''] \<and> set [''a'', ''b''] = dom (Players arenaStore) \<and>
   fst (broadcastState [''a'', ''b''] [''a'', ''b''] [''a'', ''b''] neverFails arenaStore) =
     roundReset [''a'', ''b''] arenaStore \<and>
   distinct [''a''] \<and> set [''a''] = dom (Players loneStore) \<and>
   Players loneStore = [''a'' \<mapsto> loner] \<and> \<not> Dead loner \<and>
   fst (broadcastState [''a''] [''a''] [''a''] neverFails loneStore) =
     roundReset [''a''] loneStore"
proof -
  have d: "distinct [''a'', ''b'']" and d1: "distinct [''a'']"
    by simp_all
  have s: "set [''a'', ''b''] = dom (Players arenaStore)"
    by (auto simp: arenaStore_def)
  have s1: "set [''a''] = dom (Players loneStore)"
    by (auto simp: loneStore_def)
  have l: "Players loneStore = [''a'' \<mapsto> loner]" and a: "\<not> Dead loner"
    by (simp_all add: loneStore_def loner_def)
  have e: "\<exists>k p. Players loneStore = [k \<mapsto> p] \<and> \<not> Dead p"
    using l a by blast
  have one: "card {k. \<exists>p. Players arenaStore k = Some p \<and> \<not> Dead p} = 1"
    by (simp add: arena_alive)
  have x: "fst (broadcastState [''a'', ''b''] [''a'', ''b''] [''a'', ''b''] neverFails arenaStore) =
             roundReset [''a'', ''b''] arenaStore"
    using reset_when_one_alive [OF d s, where ss = "[''a'', ''b'']" and rs = "[''a'', ''b'']"
            and fails = neverFails] one
    by (simp add: sendLoop_neverFails del: sendLoop.simps)
  have "fst (broadcastState [''a''] [''a''] [''a''] neverFails loneStore) =
          roundReset [''a''] (sendLoop neverFails [''a''] loneStore)"
    using reset_when_one_alive [OF d1 s1, where ss = "[''a'']" and rs = "[''a'']"
            and fails = neverFails] e
    by blast
  then have y: "fst (broadcastState [''a''] [''a''] [''a''] neverFails loneStore) =
                  roundReset [''a''] loneStore"
    by (simp only: sendLoop_neverFails)
  show ?thesis
    using d d1 s s1 l a x y by simp
qed

text \<open>
  Counterexample to C1 as stated: the store holds exactly one player, alive at (70,80),
  and the broadcast tick resets the round all the same: its count of living players is 1
  and after the tick the player is at the spawn point (50,50).
\<close>

theorem lone_player_is_reset:
  "dom (Players loneStore) = {''a''} \<and>
   Players loneStore ''a'' = Some \<lparr>Player.ID = ''a'', X = 70, Y = 80, Dead = False\<rparr> \<and>
   countLoop [''a''] (Players loneStore) 0 = 1 \<and>
   fst (broadcastState [''a''] [''a''] [''a''] neverFails loneStore) =
     roundReset [''a''] loneStore \<and>
   Players (fst (broadcastState [''a''] [''a''] [''a''] neverFails loneStore)) ''a'' =
     Some \<lparr>Player.ID = ''a'', X = 50, Y = 50, Dead = False\<rparr>"
  by (simp add: loneStore_def loner_def broadcastState_def Let_def neverFails_def roundReset_def)

end
